theory Spec2Isabelle
  imports Main "HOL-Library.Word"
begin

unbundle bit_operations_syntax

section \<open>Data model of package rigid\<close>

type_synonym byte = "8 word"

text \<open>A Go \<open>string\<close> is a sequence of bytes and is modelled as \<open>string\<close>;
  \<open>[]byte(s)\<close> is \<open>bytes_of s\<close>.\<close>

definition bytes_of :: "string \<Rightarrow> byte list" where
  "bytes_of s = map (\<lambda>c. word_of_nat (of_char c)) s"

text \<open>The error values of rigid.go, followed by those of the imported ULID library:
  \<open>ulid.Parse\<close> reports the first two (rigid.go replaces them by \<open>ErrInvalidULID\<close>),
  \<open>ulid.New\<close> the others, which \<open>Generate\<close> hands on unchanged.\<close>

datatype error =
    ErrInvalidFormat
  | ErrInvalidULID
  | ErrIntegrityFailure
  | ErrEmptySecretKey
  | ErrInvalidSigLength
  | ErrDataSize
  | ErrOverflow
  | ErrBigTime
  | ErrMonotonicOverflow
  | ErrEntropyRead

text \<open>A call either returns or panics; the only panic in rigid.go is the slice expression
  \<open>sum[:r.signatureLength]\<close> with a bound outside the digest.\<close>

datatype 'a outcome = Panic | Done 'a

definition DefaultSignatureLength :: int where "DefaultSignatureLength = 8"
definition MinSignatureLength :: int where "MinSignatureLength = 4"
definition MaxSignatureLength :: int where "MaxSignatureLength = 32"

text \<open>\<open>*ulid.MonotonicEntropy\<close> is an object of the imported library: a hidden state
  together with its method \<open>MonotonicRead(ms, entropy[10])\<close>, which fills ten bytes or
  reports an error, and moves the state on.  The ten bytes are kept as an 80-bit word.\<close>

record 'e MonotonicEntropy =
  src :: 'e
  reader :: "'e \<Rightarrow> 64 word \<Rightarrow> (error + 80 word) \<times> 'e"

definition MonotonicRead ::
  "'e MonotonicEntropy \<Rightarrow> 64 word \<Rightarrow> (error + 80 word) \<times> 'e MonotonicEntropy" where
  "MonotonicRead m ms = (case reader m (src m) ms of (res, s') \<Rightarrow> (res, m\<lparr>src := s'\<rparr>))"

text \<open>The struct \<open>Rigid\<close>.  The mutex field only orders concurrent callers and carries
  no data; it has no counterpart here.  Go's \<open>int\<close> is modelled by \<open>int\<close>: the code
  only compares the signature length and uses it as a slice bound.\<close>

record 'e Rigid =
  secretKey :: "byte list"
  signatureLength :: int
  entropy :: "'e MonotonicEntropy"

record VerifyResult =
  Valid :: bool
  ULID :: string
  Metadata :: string

definition zeroVerifyResult :: VerifyResult where
  "zeroVerifyResult = \<lparr>Valid = False, ULID = [], Metadata = []\<rparr>"

text \<open>A \<open>time.Time\<close>, as far as the code reads it: \<open>t.Unix()\<close> and \<open>t.Nanosecond()\<close>.\<close>

record Time =
  Unix :: int
  Nanosecond :: int

section \<open>Library functions called by rigid.go\<close>

subsection \<open>strings.Split, strings.Join, strings.ToUpper\<close>

fun Split :: "string \<Rightarrow> char \<Rightarrow> string list" where
  "Split [] sep = [[]]"
| "Split (c # cs) sep =
     (if c = sep then [] # Split cs sep
      else (case Split cs sep of [] \<Rightarrow> [[c]] | p # ps \<Rightarrow> (c # p) # ps))"

fun Join :: "string list \<Rightarrow> string \<Rightarrow> string" where
  "Join [] sep = []"
| "Join [p] sep = p"
| "Join (p # q # ps) sep = p @ sep @ Join (q # ps) sep"

text \<open>\<open>ToUpper\<close> on ASCII text, which is all rigid.go passes to it (base32 output):
  the letters a..z move to A..Z, every other byte stays.\<close>

definition ToUpper :: "string \<Rightarrow> string" where
  "ToUpper s = map (\<lambda>c. if 97 \<le> (of_char c :: nat) \<and> (of_char c :: nat) \<le> 122
                         then char_of ((of_char c :: nat) - 32) else c) s"

subsection \<open>subtle.ConstantTimeCompare\<close>

definition ConstantTimeByteEq :: "byte \<Rightarrow> byte \<Rightarrow> int" where
  "ConstantTimeByteEq x y = uint (drop_bit 31 ((ucast (x XOR y) :: 32 word) - 1))"

definition ConstantTimeCompare :: "byte list \<Rightarrow> byte list \<Rightarrow> int" where
  "ConstantTimeCompare x y =
     (if length x \<noteq> length y then 0
      else ConstantTimeByteEq (foldl (\<lambda>v (a, b). v OR (a XOR b)) 0 (zip x y)) 0)"

subsection \<open>base32.StdEncoding without padding\<close>

definition encodeStd :: string where
  "encodeStd = ''ABCDEFGHIJKLMNOPQRSTUVWXYZ234567''"

text \<open>The eight 5-bit values \<open>b[0..7]\<close> that \<open>Encode\<close> unpacks from at most five source
  bytes; the cases of its \<open>switch\<close> fall through, so a byte that is absent contributes
  nothing, as a zero byte would.\<close>

definition quantum :: "byte list \<Rightarrow> byte list" where
  "quantum p =
     (let s = (\<lambda>i. if i < length p then p ! i else 0) in
      [drop_bit 3 (s 0),
       (push_bit 2 (s 0) AND 0x1F) OR (drop_bit 6 (s 1) AND 0x1F),
       drop_bit 1 (s 1) AND 0x1F,
       (push_bit 4 (s 1) AND 0x1F) OR (drop_bit 4 (s 2) AND 0x1F),
       (push_bit 1 (s 2) AND 0x1F) OR drop_bit 7 (s 3),
       drop_bit 2 (s 3) AND 0x1F,
       (push_bit 3 (s 3) AND 0x1F) OR drop_bit 5 (s 4),
       s 4 AND 0x1F])"

text \<open>Each round writes the characters of one quantum: eight for a full one, and for the
  last, shorter one as many as the unpadded \<open>EncodedLen\<close> leaves room for.\<close>

function EncodeToString :: "byte list \<Rightarrow> string" where
  "EncodeToString p =
     (if length p = 0 then []
      else
        (let b = quantum (take 5 p);
             room = (if length p < 5 then (length p * 8 + 4) div 5 else 8)
         in map (\<lambda>x. encodeStd ! unat (x AND 31)) (take room b)
            @ EncodeToString (drop 5 p)))"
  by pat_completeness auto
termination
  by (relation "measure length") auto

declare EncodeToString.simps [simp del]

subsection \<open>crypto/hmac over crypto/sha256\<close>

text \<open>HMAC-SHA-256 itself is the standard library's and is a parameter \<open>H\<close> of everything
  below: a function from key and message to a 256-bit digest.  The hash object collects
  what is written to it; \<open>Sum(b)\<close> appends the 32 digest bytes to \<open>b\<close>.\<close>

type_synonym mac = "byte list \<Rightarrow> byte list \<Rightarrow> 256 word"

definition word_bytes :: "nat \<Rightarrow> 'a::len word \<Rightarrow> byte list" where
  "word_bytes n w = map (\<lambda>i. ucast (drop_bit (8 * (n - 1 - i)) w)) [0..<n]"

record hmac_state =
  hkey :: "byte list"
  written :: "byte list"

definition hmac_New :: "byte list \<Rightarrow> hmac_state" where
  "hmac_New key = \<lparr>hkey = key, written = []\<rparr>"

definition hmac_Write :: "hmac_state \<Rightarrow> byte list \<Rightarrow> hmac_state" where
  "hmac_Write h p = h\<lparr>written := written h @ p\<rparr>"

definition hmac_Sum :: "mac \<Rightarrow> hmac_state \<Rightarrow> byte list \<Rightarrow> byte list" where
  "hmac_Sum H h b = b @ word_bytes 32 (H (hkey h) (written h))"

subsection \<open>github.com/oklog/ulid/v2\<close>

text \<open>A \<open>ulid.ULID\<close> is a \<open>[16]byte\<close>, here a byte list; every value the functions
  below build has 16 elements.\<close>

definition Encoding :: string where
  "Encoding = ''0123456789ABCDEFGHJKMNPQRSTVWXYZ''"

definition dec_table :: "char \<Rightarrow> byte" where
  "dec_table c =
     (case map_of (zip (Encoding @ ''abcdefghjkmnpqrstvwxyz'')
                       (map word_of_nat ([0..<32] @ [10..<32]))) c of
        Some v \<Rightarrow> v
      | None \<Rightarrow> 0xFF)"

text \<open>\<open>MarshalTextTo\<close>: \<open>dst[i] = Encoding[e\<^sub>i]\<close> for the 26 index expressions
  \<open>e\<^sub>i\<close> listed by \<open>ulid_digits\<close>.\<close>

definition ulid_digits :: "byte list \<Rightarrow> byte list" where
  "ulid_digits u =
     [drop_bit 5 (u ! 0 AND 224),
      u ! 0 AND 31,
      drop_bit 3 (u ! 1 AND 248),
      push_bit 2 (u ! 1 AND 7) OR drop_bit 6 (u ! 2 AND 192),
      drop_bit 1 (u ! 2 AND 62),
      push_bit 4 (u ! 2 AND 1) OR drop_bit 4 (u ! 3 AND 240),
      push_bit 1 (u ! 3 AND 15) OR drop_bit 7 (u ! 4 AND 128),
      drop_bit 2 (u ! 4 AND 124),
      push_bit 3 (u ! 4 AND 3) OR drop_bit 5 (u ! 5 AND 224),
      u ! 5 AND 31,
      drop_bit 3 (u ! 6 AND 248),
      push_bit 2 (u ! 6 AND 7) OR drop_bit 6 (u ! 7 AND 192),
      drop_bit 1 (u ! 7 AND 62),
      push_bit 4 (u ! 7 AND 1) OR drop_bit 4 (u ! 8 AND 240),
      push_bit 1 (u ! 8 AND 15) OR drop_bit 7 (u ! 9 AND 128),
      drop_bit 2 (u ! 9 AND 124),
      push_bit 3 (u ! 9 AND 3) OR drop_bit 5 (u ! 10 AND 224),
      u ! 10 AND 31,
      drop_bit 3 (u ! 11 AND 248),
      push_bit 2 (u ! 11 AND 7) OR drop_bit 6 (u ! 12 AND 192),
      drop_bit 1 (u ! 12 AND 62),
      push_bit 4 (u ! 12 AND 1) OR drop_bit 4 (u ! 13 AND 240),
      push_bit 1 (u ! 13 AND 15) OR drop_bit 7 (u ! 14 AND 128),
      drop_bit 2 (u ! 14 AND 124),
      push_bit 3 (u ! 14 AND 3) OR drop_bit 5 (u ! 15 AND 224),
      u ! 15 AND 31]"

definition ulid_String :: "byte list \<Rightarrow> string" where
  "ulid_String u = map (\<lambda>e. Encoding ! unat e) (ulid_digits u)"

text \<open>\<open>parse\<close> assembles the 16 bytes from the table values \<open>d\<^sub>i = dec[v[i]]\<close>.\<close>

definition ulid_undigits :: "byte list \<Rightarrow> byte list" where
  "ulid_undigits d =
     [push_bit 5 (d ! 0) OR d ! 1,
      push_bit 3 (d ! 2) OR drop_bit 2 (d ! 3),
      push_bit 6 (d ! 3) OR push_bit 1 (d ! 4) OR drop_bit 4 (d ! 5),
      push_bit 4 (d ! 5) OR drop_bit 1 (d ! 6),
      push_bit 7 (d ! 6) OR push_bit 2 (d ! 7) OR drop_bit 3 (d ! 8),
      push_bit 5 (d ! 8) OR d ! 9,
      push_bit 3 (d ! 10) OR drop_bit 2 (d ! 11),
      push_bit 6 (d ! 11) OR push_bit 1 (d ! 12) OR drop_bit 4 (d ! 13),
      push_bit 4 (d ! 13) OR drop_bit 1 (d ! 14),
      push_bit 7 (d ! 14) OR push_bit 2 (d ! 15) OR drop_bit 3 (d ! 16),
      push_bit 5 (d ! 16) OR d ! 17,
      push_bit 3 (d ! 18) OR drop_bit 2 (d ! 19),
      push_bit 6 (d ! 19) OR push_bit 1 (d ! 20) OR drop_bit 4 (d ! 21),
      push_bit 4 (d ! 21) OR drop_bit 1 (d ! 22),
      push_bit 7 (d ! 22) OR push_bit 2 (d ! 23) OR drop_bit 3 (d ! 24),
      push_bit 5 (d ! 24) OR d ! 25]"

text \<open>\<open>ulid.Parse\<close> is the lenient parser: it checks the length and that the first
  character does not overflow 128 bits, and not the alphabet.\<close>

definition ulid_Parse :: "string \<Rightarrow> error + byte list" where
  "ulid_Parse v =
     (if length v \<noteq> 26 then Inl ErrDataSize
      else if (of_char (v ! 0) :: nat) > of_char CHR ''7'' then Inl ErrOverflow
      else Inr (ulid_undigits (map dec_table v)))"

definition maxTime :: "64 word" where
  "maxTime = 0xFFFFFFFFFFFF"

definition SetTime :: "64 word \<Rightarrow> error + byte list" where
  "SetTime ms =
     (if ms > maxTime then Inl ErrBigTime
      else Inr [ucast (drop_bit 40 ms), ucast (drop_bit 32 ms), ucast (drop_bit 24 ms),
                ucast (drop_bit 16 ms), ucast (drop_bit 8 ms), ucast ms])"

text \<open>The method \<open>id.Time()\<close>: the 48-bit timestamp of a ULID, in milliseconds.\<close>

definition ULID_Time :: "byte list \<Rightarrow> 64 word" where
  "ULID_Time u = ucast (u ! 5) OR push_bit 8 (ucast (u ! 4)) OR push_bit 16 (ucast (u ! 3))
                 OR push_bit 24 (ucast (u ! 2)) OR push_bit 32 (ucast (u ! 1))
                 OR push_bit 40 (ucast (u ! 0))"

text \<open>\<open>ulid.Timestamp(t)\<close> and \<open>ulid.Time(ms)\<close> convert between \<open>time.Time\<close> and
  milliseconds, in \<open>uint64\<close> arithmetic.\<close>

definition ulid_Timestamp :: "Time \<Rightarrow> 64 word" where
  "ulid_Timestamp t = word_of_int (Unix t) * 1000 + word_of_int (Nanosecond t div 1000000)"

definition ulid_Time :: "64 word \<Rightarrow> Time" where
  "ulid_Time ms = \<lparr>Unix = uint (ms div 1000), Nanosecond = uint ((ms mod 1000) * 1000000)\<rparr>"

definition ulid_New ::
  "64 word \<Rightarrow> 'e MonotonicEntropy \<Rightarrow> (error + byte list) \<times> 'e MonotonicEntropy" where
  "ulid_New ms ent =
     (case SetTime ms of
        Inl err \<Rightarrow> (Inl err, ent)
      | Inr t \<Rightarrow>
          (case MonotonicRead ent ms of
             (Inl err, ent') \<Rightarrow> (Inl err, ent')
           | (Inr rnd, ent') \<Rightarrow> (Inr (t @ word_bytes 10 rnd), ent')))"

section \<open>rigid.go\<close>

text \<open>The variadic \<open>signatureLength ...int\<close> is the list of the arguments passed; the
  entropy source, which the Go code seeds from the clock, is handed in.\<close>

definition NewRigid ::
  "byte list \<Rightarrow> int list \<Rightarrow> 'e MonotonicEntropy \<Rightarrow> error + 'e Rigid" where
  "NewRigid key sigLens ent =
     (if length key = 0 then Inl ErrEmptySecretKey
      else
        (case sigLens of
           [] \<Rightarrow> Inr \<lparr>secretKey = key, signatureLength = DefaultSignatureLength, entropy = ent\<rparr>
         | sigLen # _ \<Rightarrow>
             if sigLen < MinSignatureLength \<or> sigLen > MaxSignatureLength
             then Inl ErrInvalidSigLength
             else Inr \<lparr>secretKey = key, signatureLength = sigLen, entropy = ent\<rparr>))"

definition generateSignature :: "mac \<Rightarrow> 'e Rigid \<Rightarrow> string \<Rightarrow> string \<Rightarrow> string outcome" where
  "generateSignature H r ulidStr metadata =
     (let h = hmac_New (secretKey r);
          h = hmac_Write h (bytes_of ulidStr);
          h = (if metadata \<noteq> [] then hmac_Write h (bytes_of metadata) else h);
          sum = hmac_Sum H h [];
          n = signatureLength r
      in if n < 0 \<or> int (length sum) < n then Panic
         else Done (ToUpper (EncodeToString (take (nat n) sum))))"

text \<open>\<open>Generate\<close> reads the clock (\<open>now\<close>) and advances the entropy source, so it takes
  the instant and returns the instance as it is after the call.\<close>

definition Generate ::
  "mac \<Rightarrow> 'e Rigid \<Rightarrow> Time \<Rightarrow> string list \<Rightarrow> (error + string) outcome \<times> 'e Rigid" where
  "Generate H r now metadata =
     (case ulid_New (ulid_Timestamp now) (entropy r) of
        (Inl err, ent') \<Rightarrow> (Done (Inl err), r\<lparr>entropy := ent'\<rparr>)
      | (Inr ulidObj, ent') \<Rightarrow>
          (let ulidStr = ulid_String ulidObj;
               metadataStr = (if length metadata > 0 then metadata ! 0 else [])
           in case generateSignature H r ulidStr metadataStr of
                Panic \<Rightarrow> (Panic, r\<lparr>entropy := ent'\<rparr>)
              | Done signature \<Rightarrow>
                  (let result = ulidStr @ ''-'' @ signature;
                       result = (if metadataStr \<noteq> [] then result @ ''-'' @ metadataStr
                                 else result)
                   in (Done (Inr result), r\<lparr>entropy := ent'\<rparr>))))"

text \<open>\<open>Verify\<close> returns its result and its error side by side, as the Go function does.
  \<open>Verify_with\<close> is \<open>Verify\<close> with the comparison routine left open.  The routine is a
  call like any other: it returns an \<open>int\<close> or does not return, and when it does not,
  neither does \<open>Verify_with\<close>.  That makes the point at which it is called observable.
  \<open>subtle.ConstantTimeCompare\<close>, which \<open>Verify\<close> calls, always returns.\<close>

definition Verify_with ::
  "(byte list \<Rightarrow> byte list \<Rightarrow> int outcome) \<Rightarrow> mac \<Rightarrow> 'e Rigid \<Rightarrow> string
     \<Rightarrow> (VerifyResult \<times> error option) outcome" where
  "Verify_with compare H r secureULID =
     (let result = zeroVerifyResult;
          parts = Split secureULID CHR ''-''
      in if length parts < 2 then Done (result, Some ErrInvalidFormat)
         else
           (let ulidStr = parts ! 0;
                signature = parts ! 1;
                metadata = (if length parts > 2 then Join (drop 2 parts) ''-'' else [])
            in case ulid_Parse ulidStr of
                 Inl err \<Rightarrow> Done (result, Some ErrInvalidULID)
               | Inr _ \<Rightarrow>
                   (case generateSignature H r ulidStr metadata of
                      Panic \<Rightarrow> Panic
                    | Done expectedSignature \<Rightarrow>
                        if length signature \<noteq> length expectedSignature
                        then Done (result, Some ErrIntegrityFailure)
                        else
                          (case compare (bytes_of signature) (bytes_of expectedSignature) of
                             Panic \<Rightarrow> Panic
                           | Done c \<Rightarrow>
                               if c \<noteq> 1
                               then Done (result, Some ErrIntegrityFailure)
                               else Done (result\<lparr>Valid := True, ULID := ulidStr,
                                                   Metadata := metadata\<rparr>, None)))))"

definition Verify ::
  "mac \<Rightarrow> 'e Rigid \<Rightarrow> string \<Rightarrow> (VerifyResult \<times> error option) outcome" where
  "Verify = Verify_with (\<lambda>x y. Done (ConstantTimeCompare x y))"

definition ExtractULID :: "'e Rigid \<Rightarrow> string \<Rightarrow> error + byte list" where
  "ExtractULID r secureULID =
     (let parts = Split secureULID CHR ''-''
      in if length parts < 2 then Inl ErrInvalidFormat
         else (case ulid_Parse (parts ! 0) of
                 Inl err \<Rightarrow> Inl ErrInvalidULID
               | Inr ulidObj \<Rightarrow> Inr ulidObj))"

definition ExtractTimestamp :: "'e Rigid \<Rightarrow> string \<Rightarrow> error + Time" where
  "ExtractTimestamp r secureULID =
     (case ExtractULID r secureULID of
        Inl err \<Rightarrow> Inl err
      | Inr ulidObj \<Rightarrow> Inr (ulid_Time (ULID_Time ulidObj)))"

text \<open>Signing as section 4.2 of the specification words it: HMAC over the id text followed
  by the metadata, cut to the first \<open>n\<close> bytes, in unpadded upper-case base32.\<close>

definition Sign_spec :: "mac \<Rightarrow> byte list \<Rightarrow> nat \<Rightarrow> string \<Rightarrow> string \<Rightarrow> string" where
  "Sign_spec H key n id_text metadata =
     ToUpper (EncodeToString (take n (word_bytes 32 (H key (bytes_of id_text @ bytes_of metadata)))))"

text \<open>Stand-ins for the two collaborators, for evaluating at concrete inputs: a keyed
  function of the right type, and an entropy source that counts its calls.\<close>

definition checksum_mac :: mac where
  "checksum_mac key msg =
     push_bit 200 (word_of_nat (sum_list (map unat key) + 31 * sum_list (map unat msg)))"

definition counting_entropy :: "nat MonotonicEntropy" where
  "counting_entropy = \<lparr>src = 0, reader = (\<lambda>n ms. (Inr (word_of_nat n), Suc n))\<rparr>"

definition demo_rigid :: "nat Rigid" where
  "demo_rigid = \<lparr>secretKey = [1, 2, 3], signatureLength = 8, entropy = counting_entropy\<rparr>"

definition demo_now :: Time where
  "demo_now = \<lparr>Unix = 1700000000, Nanosecond = 123456789\<rparr>"

section \<open>Facts about the library functions\<close>

subsection \<open>Splitting and joining\<close>

lemma Split_not_Nil: "Split s sep \<noteq> []"
  by (induction s) (auto split: list.splits)

lemma Split_no_sep: "sep \<notin> set a \<Longrightarrow> Split a sep = [a]"
  by (induction a) auto

lemma Split_append_sep: "sep \<notin> set a \<Longrightarrow> Split (a @ sep # b) sep = a # Split b sep"
  by (induction a) auto

lemma Join_Split: "Join (Split s sep) [sep] = s"
proof (induction s)
  case Nil
  show ?case by simp
next
  case (Cons c cs)
  obtain p ps where sp: "Split cs sep = p # ps"
    using Split_not_Nil [of cs sep] by (cases "Split cs sep") auto
  show ?case
  proof (cases "c = sep")
    case True
    with Cons sp show ?thesis by simp
  next
    case False
    with Cons sp show ?thesis by (cases ps) auto
  qed
qed

lemma length_Split_less_2: "(length (Split s sep) < 2) = (sep \<notin> set s)"
proof (induction s)
  case Nil
  show ?case by simp
next
  case (Cons c cs)
  obtain p ps where sp: "Split cs sep = p # ps"
    using Split_not_Nil [of cs sep] by (cases "Split cs sep") auto
  with Cons show ?case by auto
qed

subsection \<open>Strings as bytes\<close>

lemma byte_of_char_inj: "inj (\<lambda>c. word_of_nat (of_char c) :: byte)"
proof (rule injI)
  fix c d :: char
  assume "(word_of_nat (of_char c) :: byte) = word_of_nat (of_char d)"
  then have "unat (word_of_nat (of_char c) :: byte) = unat (word_of_nat (of_char d) :: byte)"
    by simp
  moreover have "(of_char e :: nat) < 256" for e :: char
    by (rule nat_of_char_less_256)
  ultimately have "(of_char c :: nat) = of_char d"
    by (simp add: unat_of_nat take_bit_nat_eq_self)
  then show "c = d" by simp
qed

lemma bytes_of_inj: "inj bytes_of"
  unfolding bytes_of_def [abs_def] using byte_of_char_inj by (rule inj_mapI)

subsection \<open>Comparison\<close>

lemma foldl_or_xor_same: "foldl (\<lambda>v (a, b). v OR (a XOR b)) v (zip x x) = (v :: byte)"
  by (induction x arbitrary: v) auto

lemma ConstantTimeByteEq_same: "ConstantTimeByteEq x x = 1"
  by (simp add: ConstantTimeByteEq_def drop_bit_eq_div)

lemma ConstantTimeCompare_same: "ConstantTimeCompare x x = 1"
  by (simp add: ConstantTimeCompare_def foldl_or_xor_same ConstantTimeByteEq_same)

lemma xor_0_eq: "(a XOR b = 0) = (a = (b :: byte))"
proof
  assume "a XOR b = 0"
  then have "(a XOR b) XOR b = b" by simp
  then show "a = b" by (simp add: xor.assoc)
qed simp

lemma foldl_or_xor_0:
  "length x = length y \<Longrightarrow>
     (foldl (\<lambda>v (a, b). v OR (a XOR b)) v (zip x y) = (0 :: byte)) = (v = 0 \<and> x = y)"
proof (induction x y arbitrary: v rule: list_induct2)
  case Nil
  show ?case by simp
next
  case (Cons a x b y)
  have "(v OR (a XOR b) = 0) = (v = 0 \<and> a = b)"
    by (simp add: or_eq_0_iff xor_0_eq)
  with Cons show ?case by auto
qed

lemma byte_pred_less:
  assumes "v \<noteq> (0 :: byte)"
  shows "drop_bit 31 ((ucast v :: 32 word) - 1) = 0"
proof -
  from assms have pos: "0 < unat v" by (simp add: unat_gt_0)
  have "unat v < 256" using unsigned_less [of v] by simp
  then have "unat (ucast v :: 32 word) = unat v"
    by (simp add: unsigned_ucast_eq take_bit_nat_eq_self)
  with pos \<open>unat v < 256\<close> have "unat ((ucast v :: 32 word) - 1) < 255"
    by (simp add: unat_sub word_le_nat_alt)
  then have "(ucast v :: 32 word) - 1 < 2 ^ 31"
    by (simp add: word_less_nat_alt)
  then have "take_bit 31 ((ucast v :: 32 word) - 1) = (ucast v :: 32 word) - 1"
    by (simp add: take_bit_eq_mask less_mask_eq)
  then show ?thesis
    by (simp only: take_bit_eq_self_iff_drop_bit_eq_0)
qed

lemma ConstantTimeByteEq_0: "ConstantTimeByteEq v 0 = (if v = 0 then 1 else 0)"
  by (simp add: ConstantTimeByteEq_same) (simp add: ConstantTimeByteEq_def byte_pred_less)

text \<open>The comparison answers 1 exactly for equal byte strings.\<close>

lemma ConstantTimeCompare_iff: "ConstantTimeCompare x y = (if x = y then 1 else 0)"
  by (auto simp: ConstantTimeCompare_def ConstantTimeByteEq_0 foldl_or_xor_0)

subsection \<open>base32\<close>

lemma length_encodeStd: "length encodeStd = 32"
  by (simp add: encodeStd_def)

lemma and_31_less: "unat ((x :: byte) AND 31) < 32"
proof -
  have "x AND 31 \<le> 31" by (rule word_and_le1)
  then show ?thesis by (simp add: word_le_nat_alt)
qed

lemma set_EncodeToString: "set (EncodeToString p) \<subseteq> set encodeStd"
proof (induction p rule: EncodeToString.induct)
  case (1 p)
  show ?case
  proof (cases "length p = 0")
    case True
    then show ?thesis by (simp add: EncodeToString.simps)
  next
    case False
    have "set (map (\<lambda>x. encodeStd ! unat (x AND 31)) ys) \<subseteq> set encodeStd" for ys :: "byte list"
      using and_31_less by (auto simp: length_encodeStd intro!: nth_mem)
    with False "1.IH" show ?thesis
      by (subst EncodeToString.simps) (simp add: Let_def del: set_map)
  qed
qed

lemma encodeStd_upper: "c \<in> set encodeStd \<Longrightarrow> \<not> (97 \<le> (of_char c :: nat) \<and> (of_char c :: nat) \<le> 122)"
  by (auto simp: encodeStd_def)

lemma ToUpper_encodeStd: "set s \<subseteq> set encodeStd \<Longrightarrow> ToUpper s = s"
  unfolding ToUpper_def by (rule map_idI) (use encodeStd_upper in auto)

lemma hyphen_notin_encodeStd: "CHR ''-'' \<notin> set encodeStd"
  by (simp add: encodeStd_def)

subsection \<open>Signing\<close>

lemma length_word_bytes: "length (word_bytes n w) = n"
  by (simp add: word_bytes_def)

lemma generateSignature_unfold:
  "generateSignature H r ulidStr metadata =
     (if signatureLength r < 0 \<or> 32 < signatureLength r then Panic
      else Done (ToUpper (EncodeToString (take (nat (signatureLength r))
             (word_bytes 32 (H (secretKey r) (bytes_of ulidStr @ bytes_of metadata)))))))"
  by (cases "metadata = []")
    (simp_all add: generateSignature_def hmac_New_def hmac_Write_def hmac_Sum_def
      length_word_bytes bytes_of_def Let_def)

lemma generateSignature_entropy:
  "generateSignature H (r\<lparr>entropy := e\<rparr>) ulidStr metadata = generateSignature H r ulidStr metadata"
  by (simp add: generateSignature_unfold)

lemma generateSignature_plain:
  assumes "generateSignature H r ulidStr metadata = Done sg"
  shows "CHR ''-'' \<notin> set sg"
proof -
  from assms obtain p where "sg = ToUpper (EncodeToString p)"
    by (auto simp: generateSignature_unfold split: if_splits)
  then have "sg = EncodeToString p"
    by (simp add: ToUpper_encodeStd set_EncodeToString)
  then show ?thesis
    using set_EncodeToString [of p] hyphen_notin_encodeStd by auto
qed

subsection \<open>The ULID text codec\<close>

lemma byte_eqI:
  fixes a b :: byte
  assumes "bit a 0 = bit b 0" "bit a 1 = bit b 1" "bit a 2 = bit b 2" "bit a 3 = bit b 3"
    "bit a 4 = bit b 4" "bit a 5 = bit b 5" "bit a 6 = bit b 6" "bit a 7 = bit b 7"
  shows "a = b"
proof (rule bit_word_eqI)
  fix n assume "n < LENGTH(8)"
  then have "n \<in> {0, 1, 2, 3, 4, 5, 6, 7}" by auto
  with assms show "bit a n = bit b n" by (elim insertE emptyE) simp_all
qed

lemma byte_less_32I:
  fixes x :: byte
  assumes "\<not> bit x 5" "\<not> bit x 6" "\<not> bit x 7"
  shows "x < 32"
proof -
  have "x AND mask 5 = x"
    using assms by (intro byte_eqI) (simp_all add: bit_simps)
  moreover have "x AND mask 5 < 2 ^ 5"
    by (rule and_mask_less_size) (simp add: word_size)
  ultimately show ?thesis by simp
qed

lemma byte_less_8I:
  fixes x :: byte
  assumes "\<not> bit x 3" "\<not> bit x 4" "\<not> bit x 5" "\<not> bit x 6" "\<not> bit x 7"
  shows "x < 8"
proof -
  have "x AND mask 3 = x"
    using assms by (intro byte_eqI) (simp_all add: bit_simps)
  moreover have "x AND mask 3 < 2 ^ 3"
    by (rule and_mask_less_size) (simp add: word_size)
  ultimately show ?thesis by simp
qed

lemma bit_times_2: "bit (a * 2 :: byte) n = (n \<noteq> 0 \<and> n < 8 \<and> bit a (n - 1))"
proof -
  have "bit (push_bit 1 a) n = (1 \<le> n \<and> possible_bit TYPE(byte) n \<and> bit a (n - 1))"
    by (rule bit_push_bit_iff)
  then show ?thesis by (auto simp: push_bit_eq_mult possible_bit_word)
qed

lemma ulid_digits_less: "list_all (\<lambda>e. e < 32) (ulid_digits u)"
  unfolding ulid_digits_def list.pred_inject
  by (intro conjI byte_less_32I TrueI) (simp_all add: bit_simps)

lemma ulid_digits_first: "ulid_digits u ! 0 < 8"
  unfolding ulid_digits_def nth_Cons_0
  by (rule byte_less_8I) (simp_all add: bit_simps)

lemma length_ulid_digits: "length (ulid_digits u) = 26"
  by (simp add: ulid_digits_def)

lemma ulid_undigits_digits:
  "ulid_undigits (ulid_digits [b0, b1, b2, b3, b4, b5, b6, b7, b8, b9, b10, b11, b12, b13, b14, b15])
   = [b0, b1, b2, b3, b4, b5, b6, b7, b8, b9, b10, b11, b12, b13, b14, b15]"
  apply (simp add: ulid_undigits_def ulid_digits_def)
  apply (intro conjI byte_eqI)
  apply (simp_all add: bit_simps bit_times_2 flip: numeral_2_eq_2 numeral_3_eq_3)
  done

lemma list16:
  assumes "length (u :: 'a list) = 16"
  obtains b0 b1 b2 b3 b4 b5 b6 b7 b8 b9 b10 b11 b12 b13 b14 b15
  where "u = [b0, b1, b2, b3, b4, b5, b6, b7, b8, b9, b10, b11, b12, b13, b14, b15]"
proof -
  from assms have "u = map (\<lambda>i. u ! i) [0..<16]"
    by (metis map_nth)
  also have "[0..<16] = [0, 1, 2, 3, 4, 5, 6, 7, 8, 9, 10, 11, 12, 13, 14, 15]"
    by (simp add: upt_rec)
  finally show ?thesis using that by simp
qed

lemma dec_Encoding_nat: "\<forall>n \<in> set [0..<32]. dec_table (Encoding ! n) = word_of_nat n"
  by code_simp

lemma dec_Encoding: "e < 32 \<Longrightarrow> dec_table (Encoding ! unat e) = e"
proof -
  assume "e < 32"
  then have "unat e < 32" by (simp add: word_less_nat_alt)
  then have "dec_table (Encoding ! unat e) = word_of_nat (unat e)"
    using dec_Encoding_nat by simp
  then show ?thesis by simp
qed

lemma map_dec_ulid_String: "map dec_table (ulid_String u) = ulid_digits u"
proof -
  have "\<forall>e \<in> set (ulid_digits u). dec_table (Encoding ! unat e) = e"
    using ulid_digits_less [of u] by (auto simp: list_all_iff dec_Encoding)
  then show ?thesis
    unfolding ulid_String_def map_map by (intro map_idI) simp
qed

lemma length_ulid_String: "length (ulid_String u) = 26"
  by (simp add: ulid_String_def length_ulid_digits)

lemma length_Encoding: "length Encoding = 32"
  by (simp add: Encoding_def)

lemma set_ulid_String: "set (ulid_String u) \<subseteq> set Encoding"
proof -
  have "unat e < 32" if "e \<in> set (ulid_digits u)" for e
    using ulid_digits_less [of u] that by (auto simp: list_all_iff word_less_nat_alt)
  then show ?thesis
    by (auto simp: ulid_String_def length_Encoding intro!: nth_mem)
qed

lemma hyphen_notin_ulid_String: "CHR ''-'' \<notin> set (ulid_String u)"
  using set_ulid_String [of u] by (auto simp: Encoding_def)

lemma Encoding_low: "\<forall>n \<in> set [0..<8]. (of_char (Encoding ! n) :: nat) \<le> of_char CHR ''7''"
  by code_simp

lemma ulid_String_first: "\<not> (of_char (ulid_String u ! 0) :: nat) > of_char CHR ''7''"
proof -
  have "unat (ulid_digits u ! 0) < 8"
    using ulid_digits_first [of u] by (simp add: word_less_nat_alt)
  then have "(of_char (Encoding ! unat (ulid_digits u ! 0)) :: nat) \<le> of_char CHR ''7''"
    using Encoding_low by simp
  moreover have "ulid_String u ! 0 = Encoding ! unat (ulid_digits u ! 0)"
    by (simp add: ulid_String_def length_ulid_digits)
  ultimately show ?thesis by simp
qed

lemma ulid_Parse_String: "ulid_Parse (ulid_String u) = Inr (ulid_undigits (ulid_digits u))"
  using ulid_String_first [of u]
  by (simp add: ulid_Parse_def length_ulid_String map_dec_ulid_String)

lemma ulid_Parse_String_16: "length u = 16 \<Longrightarrow> ulid_Parse (ulid_String u) = Inr u"
  by (erule list16) (simp add: ulid_Parse_String ulid_undigits_digits)

subsection \<open>Timestamps\<close>

lemma bit_byte_at:
  "bit (push_bit k (ucast (ucast (drop_bit k (ms :: 64 word)) :: byte) :: 64 word)) n
     = (k \<le> n \<and> n < k + 8 \<and> n < 64 \<and> bit ms n)"
  by (auto simp: bit_simps)

lemma bit_byte_0:
  "bit (ucast (ucast (ms :: 64 word) :: byte) :: 64 word) n = (n < 8 \<and> bit ms n)"
  by (auto simp: bit_simps)

lemma ULID_Time_SetTime:
  assumes "SetTime ms = Inr t"
  shows "ULID_Time (t @ r) = ms"
proof -
  from assms have le: "ms \<le> maxTime"
    and t: "t = [ucast (drop_bit 40 ms), ucast (drop_bit 32 ms), ucast (drop_bit 24 ms),
                ucast (drop_bit 16 ms), ucast (drop_bit 8 ms), ucast ms]"
    by (auto simp: SetTime_def split: if_splits)
  have "ms < 2 ^ 48" using le by (simp add: maxTime_def word_le_nat_alt word_less_nat_alt)
  then have "ms AND mask 48 = ms" by (rule less_mask_eq)
  then have hi: "n < 48" if "bit ms n" for n
    using that by (metis bit_and_iff bit_mask_iff)
  have six: "ULID_Time ([a, b, c, d, e, f] @ r) =
      ucast f OR push_bit 8 (ucast e) OR push_bit 16 (ucast d)
        OR push_bit 24 (ucast c) OR push_bit 32 (ucast b) OR push_bit 40 (ucast a)" for a b c d e f
    by (simp add: ULID_Time_def)
  have "bit (ULID_Time (t @ r)) n = bit ms n" for n
  proof (cases "bit ms n")
    case True
    with hi [of n] show ?thesis
      unfolding t six by (simp only: bit_or_iff bit_byte_at bit_byte_0) arith
  next
    case False
    then show ?thesis
      unfolding t six by (simp only: bit_or_iff bit_byte_at bit_byte_0) simp
  qed
  then show ?thesis by (rule bit_eqI)
qed

lemma length_SetTime: "SetTime ms = Inr t \<Longrightarrow> length t = 6"
  by (auto simp: SetTime_def split: if_splits)

lemma ulid_New_Inr:
  assumes "fst (ulid_New ms ent) = Inr u"
  shows "length u = 16 \<and> ULID_Time u = ms"
proof -
  from assms have "\<exists>t (rnd :: 80 word). SetTime ms = Inr t \<and> u = t @ word_bytes 10 rnd"
    by (auto simp: ulid_New_def split: sum.splits prod.splits)
  then obtain t and rnd :: "80 word" where "SetTime ms = Inr t" and "u = t @ word_bytes 10 rnd"
    by blast
  then show ?thesis
    by (simp add: ULID_Time_SetTime length_SetTime length_word_bytes)
qed

text \<open>For an instant of the Unix era, with its nanoseconds in range, the round trip
  through milliseconds drops what is below the millisecond and nothing else.\<close>

lemma ulid_Time_Timestamp:
  assumes "0 \<le> Unix t" "Unix t < 2 ^ 50" "0 \<le> Nanosecond t" "Nanosecond t < 1000000000"
  shows "ulid_Time (ulid_Timestamp t)
           = \<lparr>Unix = Unix t, Nanosecond = Nanosecond t div 1000000 * 1000000\<rparr>"
proof -
  let ?q = "Nanosecond t div 1000000"
  have q: "0 \<le> ?q" "?q < 1000" using assms by simp_all
  let ?v = "Unix t * 1000 + ?q"
  have v: "0 \<le> ?v" "?v < 2 ^ 64" using assms q by simp_all
  have ms: "ulid_Timestamp t = word_of_int ?v"
    by (simp add: ulid_Timestamp_def)
  have "uint (word_of_int k :: 64 word) = k" if "0 \<le> k" "k < 2 ^ 64" for k
    using that by (simp add: uint_word_of_int_eq take_bit_int_eq_self)
  from this [OF v] have u: "uint (word_of_int ?v :: 64 word) = ?v" .
  have d: "uint ((word_of_int ?v :: 64 word) div 1000) = Unix t"
    using q by (simp add: uint_div u del: of_int_add of_int_mult)
  have m: "uint ((word_of_int ?v :: 64 word) mod 1000) = ?q"
    using q by (simp add: uint_mod u del: of_int_add of_int_mult)
  have "uint (((word_of_int ?v :: 64 word) mod 1000) * 1000000) = ?q * 1000000"
    using q by (simp add: uint_mult_lem [THEN iffD1] m del: of_int_add of_int_mult)
  with d show ?thesis
    by (simp add: ulid_Time_def ms del: of_int_add of_int_mult)
qed

subsection \<open>Instances\<close>

text \<open>What \<open>NewRigid\<close> establishes; \<open>Generate\<close> changes the entropy source only
  (\<open>snd_Generate\<close> below), so it holds for an instance throughout its life.\<close>

lemma NewRigid_Inr:
  assumes "NewRigid key sigLens ent = Inr r"
  shows "secretKey r = key \<and> key \<noteq> [] \<and> entropy r = ent
         \<and> 4 \<le> signatureLength r \<and> signatureLength r \<le> 32"
  using assms
  by (auto simp: NewRigid_def DefaultSignatureLength_def MinSignatureLength_def
      MaxSignatureLength_def split: if_splits list.splits)

subsection \<open>What Generate returns\<close>

lemma Generate_Inr:
  assumes "fst (Generate H r now metadata) = Done (Inr s)"
  obtains u sg where
    "fst (ulid_New (ulid_Timestamp now) (entropy r)) = Inr u"
    "generateSignature H r (ulid_String u) (if metadata = [] then [] else hd metadata) = Done sg"
    "s = ulid_String u @ CHR ''-'' # sg
           @ (if (if metadata = [] then [] else hd metadata) = [] then []
              else CHR ''-'' # (if metadata = [] then [] else hd metadata))"
  using assms
  by (cases metadata)
    (auto simp: Generate_def Let_def split: prod.splits sum.splits outcome.splits if_splits)

lemma snd_Generate:
  "snd (Generate H r now metadata) = r\<lparr>entropy := snd (ulid_New (ulid_Timestamp now) (entropy r))\<rparr>"
  by (auto simp: Generate_def Let_def split: prod.splits sum.splits outcome.splits)

lemma Split_identifier:
  assumes "CHR ''-'' \<notin> set a" "CHR ''-'' \<notin> set sg"
  shows "Split (a @ CHR ''-'' # sg @ (if m = [] then [] else CHR ''-'' # m)) CHR ''-''
          = (if m = [] then [a, sg] else a # sg # Split m CHR ''-'')"
  using assms by (simp add: Split_append_sep Split_no_sep)

lemma Verify_identifier:
  assumes u: "length u = 16"
    and sg: "generateSignature H r (ulid_String u) m = Done sg"
  shows "Verify H (r\<lparr>entropy := e\<rparr>)
           (ulid_String u @ CHR ''-'' # sg @ (if m = [] then [] else CHR ''-'' # m))
         = Done (\<lparr>Valid = True, ULID = ulid_String u, Metadata = m\<rparr>, None)"
proof -
  let ?s = "ulid_String u @ CHR ''-'' # sg @ (if m = [] then [] else CHR ''-'' # m)"
  have parts: "Split ?s CHR ''-'' = (if m = [] then [ulid_String u, sg]
                 else ulid_String u # sg # Split m CHR ''-'')"
    using hyphen_notin_ulid_String generateSignature_plain [OF sg] by (rule Split_identifier)
  have meta: "(if length (Split ?s CHR ''-'') > 2 then Join (drop 2 (Split ?s CHR ''-'')) ''-'' else []) = m"
    using Split_not_Nil [of m "CHR ''-''"] by (simp add: parts Join_Split)
  have len: "\<not> length (Split ?s CHR ''-'') < 2" by (simp add: parts)
  have p0: "Split ?s CHR ''-'' ! 0 = ulid_String u" and p1: "Split ?s CHR ''-'' ! 1 = sg"
    by (simp_all add: parts)
  show ?thesis
    unfolding Verify_def Verify_with_def Let_def
    by (simp only: len if_False p0 p1 meta ulid_Parse_String_16 [OF u] sum.case
        generateSignature_entropy sg outcome.case)
      (simp add: ConstantTimeCompare_same zeroVerifyResult_def)
qed

subsection \<open>The demonstration instance\<close>

lemma demo_ulid:
  "fst (ulid_New (ulid_Timestamp demo_now) (entropy demo_rigid))
     = Inr [1, 139, 207, 229, 104, 123, 0, 0, 0, 0, 0, 0, 0, 0, 0, 0]"
  by code_simp

lemma demo_ulid_String:
  "ulid_String [1, 139, 207, 229, 104, 123, 0, 0, 0, 0, 0, 0, 0, 0, 0, 0]
     = ''01HF7YAT3V0000000000000000''"
  by code_simp

lemmas eval_signature = generateSignature_unfold demo_rigid_def checksum_mac_def bytes_of_def
  word_bytes_def EncodeToString.simps quantum_def ToUpper_def encodeStd_def upt_rec

lemma demo_signature_meta:
  "generateSignature checksum_mac demo_rigid ''01HF7YAT3V0000000000000000'' ''a-b''
     = Done ''AAAAAAAAZMMQA''"
  by (simp add: eval_signature)

lemma demo_signature_plain:
  "generateSignature checksum_mac demo_rigid ''01HF7YAT3V0000000000000000'' []
     = Done ''AAAAAAAAVYEQA''"
  by (simp add: eval_signature)

lemma demo_Generate_meta:
  "fst (Generate checksum_mac demo_rigid demo_now [''a-b''])
     = Done (Inr ''01HF7YAT3V0000000000000000-AAAAAAAAZMMQA-a-b'')"
  using demo_ulid
  by (cases "ulid_New (ulid_Timestamp demo_now) (entropy demo_rigid)")
    (simp add: Generate_def demo_ulid_String demo_signature_meta)

lemma demo_Generate_plain:
  "fst (Generate checksum_mac demo_rigid demo_now [])
     = Done (Inr ''01HF7YAT3V0000000000000000-AAAAAAAAVYEQA'')"
  using demo_ulid
  by (cases "ulid_New (ulid_Timestamp demo_now) (entropy demo_rigid)")
    (simp add: Generate_def demo_ulid_String demo_signature_plain)

lemma demo_Verify:
  "Verify checksum_mac demo_rigid ''01HF7YAT3V0000000000000000-AAAAAAAAZMMQA-a-b''
     = Done (\<lparr>Valid = True, ULID = ''01HF7YAT3V0000000000000000'', Metadata = ''a-b''\<rparr>, None)"
  using Verify_identifier [of "[1, 139, 207, 229, 104, 123, 0, 0, 0, 0, 0, 0, 0, 0, 0, 0]"
      checksum_mac demo_rigid "''a-b''" "''AAAAAAAAZMMQA''" "entropy demo_rigid"]
  by (simp add: demo_ulid_String demo_signature_meta)

lemmas eval_Verify = Verify_def Verify_with_def ulid_Parse_def zeroVerifyResult_def

section \<open>Round trip\<close>

text \<open>C1: on an instance with a non-empty key and a signature length in 4..32,
  \<open>Generate\<close> called with metadata \<open>m\<close> never panics, and whenever it returns an
  identifier, \<open>Verify\<close> on the same instance returns no error and a result with
  \<open>Valid = true\<close>, the id segment as \<open>ULID\<close> and \<open>Metadata = m\<close>; \<open>m\<close> is any
  string, empty or with hyphens, and further variadic arguments are ignored.\<close>

theorem Verify_Generate:
  assumes "secretKey r \<noteq> []" and "4 \<le> signatureLength r" and "signatureLength r \<le> 32"
  shows "fst (Generate H r now (m # rest)) \<noteq> Panic
    \<and> (\<forall>s. fst (Generate H r now (m # rest)) = Done (Inr s) \<longrightarrow>
          Verify H (snd (Generate H r now (m # rest))) s
            = Done (\<lparr>Valid = True, ULID = take 26 s, Metadata = m\<rparr>, None))"
proof (intro conjI allI impI)
  show "fst (Generate H r now (m # rest)) \<noteq> Panic"
    using assms
    by (auto simp: Generate_def Let_def generateSignature_unfold
        split: prod.splits sum.splits)
next
  fix s
  assume "fst (Generate H r now (m # rest)) = Done (Inr s)"
  then obtain u sg where u: "fst (ulid_New (ulid_Timestamp now) (entropy r)) = Inr u"
    and sg: "generateSignature H r (ulid_String u) m = Done sg"
    and s: "s = ulid_String u @ CHR ''-'' # sg @ (if m = [] then [] else CHR ''-'' # m)"
    by (rule Generate_Inr) simp
  have "length u = 16" using ulid_New_Inr [OF u] by simp
  moreover have "take 26 s = ulid_String u"
    by (simp add: s length_ulid_String)
  ultimately show "Verify H (snd (Generate H r now (m # rest))) s
            = Done (\<lparr>Valid = True, ULID = take 26 s, Metadata = m\<rparr>, None)"
    using sg by (simp add: snd_Generate s Verify_identifier)
qed

theorem Verify_Generate_witness:
  "secretKey demo_rigid \<noteq> [] \<and> 4 \<le> signatureLength demo_rigid
   \<and> signatureLength demo_rigid \<le> 32
   \<and> fst (Generate checksum_mac demo_rigid demo_now [''a-b''])
        = Done (Inr ''01HF7YAT3V0000000000000000-AAAAAAAAZMMQA-a-b'')
   \<and> Verify checksum_mac (snd (Generate checksum_mac demo_rigid demo_now [''a-b'']))
        ''01HF7YAT3V0000000000000000-AAAAAAAAZMMQA-a-b''
        = Done (\<lparr>Valid = True, ULID = ''01HF7YAT3V0000000000000000'', Metadata = ''a-b''\<rparr>, None)"
proof -
  have k: "secretKey demo_rigid \<noteq> []" and lo: "4 \<le> signatureLength demo_rigid"
    and hi: "signatureLength demo_rigid \<le> 32"
    by (simp_all add: demo_rigid_def)
  from Verify_Generate [OF k lo hi, of checksum_mac demo_now "''a-b''" "[]"] demo_Generate_meta
  have "Verify checksum_mac (snd (Generate checksum_mac demo_rigid demo_now [''a-b'']))
        ''01HF7YAT3V0000000000000000-AAAAAAAAZMMQA-a-b''
        = Done (\<lparr>Valid = True, ULID = take 26 ''01HF7YAT3V0000000000000000-AAAAAAAAZMMQA-a-b'',
             Metadata = ''a-b''\<rparr>, None)"
    by blast
  with k lo hi demo_Generate_meta show ?thesis by simp
qed

section \<open>Signature computation\<close>

text \<open>C2: for a configured length \<open>N\<close> in 4..32, the signature of an id text and a
  metadata string is the unpadded upper-case base32 text of the first \<open>N\<close> bytes of
  HMAC-SHA-256 under the secret key over the id text's bytes followed directly by the
  metadata's bytes.\<close>

theorem generateSignature_Sign_spec:
  assumes "4 \<le> signatureLength r" and "signatureLength r \<le> 32"
  shows "generateSignature H r id_text metadata
           = Done (Sign_spec H (secretKey r) (nat (signatureLength r)) id_text metadata)"
proof -
  let ?h0 = "hmac_Write (hmac_New (secretKey r)) (bytes_of id_text)"
  let ?h = "if metadata \<noteq> [] then hmac_Write ?h0 (bytes_of metadata) else ?h0"
  have msg: "written ?h = bytes_of id_text @ bytes_of metadata"
    by (simp add: hmac_Write_def hmac_New_def bytes_of_def)
  have key: "hkey ?h = secretKey r"
    by (simp add: hmac_Write_def hmac_New_def)
  have sum: "hmac_Sum H ?h [] = word_bytes 32 (H (secretKey r) (bytes_of id_text @ bytes_of metadata))"
    unfolding hmac_Sum_def msg key by simp
  have "length (hmac_Sum H ?h []) = 32"
    unfolding sum by (rule length_word_bytes)
  with assms show ?thesis
    unfolding generateSignature_def Let_def Sign_spec_def sum by simp
qed

theorem generateSignature_Sign_spec_witness:
  "4 \<le> signatureLength demo_rigid \<and> signatureLength demo_rigid \<le> 32
   \<and> generateSignature checksum_mac demo_rigid ''01HF7YAT3V0000000000000000'' ''a-b''
       = Done (Sign_spec checksum_mac [1, 2, 3] 8 ''01HF7YAT3V0000000000000000'' ''a-b'')
   \<and> Sign_spec checksum_mac [1, 2, 3] 8 ''01HF7YAT3V0000000000000000'' ''a-b'' = ''AAAAAAAAZMMQA''"
proof -
  have lo: "4 \<le> signatureLength demo_rigid" and hi: "signatureLength demo_rigid \<le> 32"
    by (simp_all add: demo_rigid_def)
  have "generateSignature checksum_mac demo_rigid ''01HF7YAT3V0000000000000000'' ''a-b''
       = Done (Sign_spec checksum_mac [1, 2, 3] 8 ''01HF7YAT3V0000000000000000'' ''a-b'')"
    using generateSignature_Sign_spec [OF lo hi, of checksum_mac "''01HF7YAT3V0000000000000000''" "''a-b''"]
    by (simp add: demo_rigid_def)
  with lo hi demo_signature_meta show ?thesis by simp
qed

section \<open>Verification\<close>

text \<open>C3: when the input has at least two segments, the first parses as a ULID and the
  second segment's length differs from the length of the recomputed signature, \<open>Verify\<close>
  returns the zero result with \<open>ErrIntegrityFailure\<close> without calling the comparison
  routine: the same result comes back for every routine put in its place, also for one
  that never returns, which would keep \<open>Verify\<close> from returning if it were called.
  With equal lengths the routine is called: its answer decides, and with the routine that
  never returns \<open>Verify\<close> does not return either.\<close>

theorem Verify_length_mismatch:
  assumes "Split s CHR ''-'' = ulidStr # signature # rest"
    and "ulid_Parse ulidStr = Inr u"
    and "generateSignature H r ulidStr (if rest = [] then [] else Join rest ''-'') = Done expected"
  shows "(length signature \<noteq> length expected \<longrightarrow>
            Verify H r s = Done (zeroVerifyResult, Some ErrIntegrityFailure)
          \<and> (\<forall>compare. Verify_with compare H r s = Done (zeroVerifyResult, Some ErrIntegrityFailure))
          \<and> Verify_with (\<lambda>x y. Panic) H r s = Done (zeroVerifyResult, Some ErrIntegrityFailure))
    \<and> (length signature = length expected \<longrightarrow>
          (\<forall>compare. Verify_with compare H r s =
             (case compare (bytes_of signature) (bytes_of expected) of
                Panic \<Rightarrow> Panic
              | Done c \<Rightarrow>
                  if c \<noteq> 1
                  then Done (zeroVerifyResult, Some ErrIntegrityFailure)
                  else Done (\<lparr>Valid = True, ULID = ulidStr,
                         Metadata = (if rest = [] then [] else Join rest ''-'')\<rparr>, None)))
          \<and> Verify_with (\<lambda>x y. Panic) H r s = Panic
          \<and> Verify H r s =
             (if signature = expected
              then Done (\<lparr>Valid = True, ULID = ulidStr,
                         Metadata = (if rest = [] then [] else Join rest ''-'')\<rparr>, None)
              else Done (zeroVerifyResult, Some ErrIntegrityFailure)))"
proof -
  have meta: "(if length (Split s CHR ''-'') > 2 then Join (drop 2 (Split s CHR ''-'')) ''-'' else [])
               = (if rest = [] then [] else Join rest ''-'')"
    by (simp add: assms(1))
  have sh: "Verify_with compare H r s =
     (if length signature \<noteq> length expected then Done (zeroVerifyResult, Some ErrIntegrityFailure)
      else
        (case compare (bytes_of signature) (bytes_of expected) of
           Panic \<Rightarrow> Panic
         | Done c \<Rightarrow>
             if c \<noteq> 1
             then Done (zeroVerifyResult, Some ErrIntegrityFailure)
             else Done (\<lparr>Valid = True, ULID = ulidStr,
                     Metadata = (if rest = [] then [] else Join rest ''-'')\<rparr>, None)))" for compare
    unfolding Verify_with_def Let_def meta
    by (simp add: assms zeroVerifyResult_def split: outcome.splits)
  have inj: "(bytes_of signature = bytes_of expected) = (signature = expected)"
    by (rule inj_eq) (rule bytes_of_inj)
  show ?thesis
    by (simp add: Verify_def sh ConstantTimeCompare_iff inj)
qed

theorem Verify_length_mismatch_witness:
  "Split ''01HF7YAT3V0000000000000000-AAAAAAAAZM-a-b'' CHR ''-''
      = [''01HF7YAT3V0000000000000000'', ''AAAAAAAAZM'', ''a'', ''b'']
   \<and> ulid_Parse ''01HF7YAT3V0000000000000000''
        = Inr [1, 139, 207, 229, 104, 123, 0, 0, 0, 0, 0, 0, 0, 0, 0, 0]
   \<and> generateSignature checksum_mac demo_rigid ''01HF7YAT3V0000000000000000'' ''a-b''
        = Done ''AAAAAAAAZMMQA''
   \<and> length ''AAAAAAAAZM'' \<noteq> length ''AAAAAAAAZMMQA''
   \<and> Verify checksum_mac demo_rigid ''01HF7YAT3V0000000000000000-AAAAAAAAZM-a-b''
        = Done (zeroVerifyResult, Some ErrIntegrityFailure)
   \<and> Verify_with (\<lambda>x y. Panic) checksum_mac demo_rigid ''01HF7YAT3V0000000000000000-AAAAAAAAZM-a-b''
        = Done (zeroVerifyResult, Some ErrIntegrityFailure)
   \<and> Verify_with (\<lambda>x y. Done 1) checksum_mac demo_rigid ''01HF7YAT3V0000000000000000-AAAAAAAAZM-a-b''
        = Done (zeroVerifyResult, Some ErrIntegrityFailure)
   \<and> length ''AAAAAAAAZMMQB'' = length ''AAAAAAAAZMMQA''
   \<and> Verify_with (\<lambda>x y. Panic) checksum_mac demo_rigid ''01HF7YAT3V0000000000000000-AAAAAAAAZMMQB-a-b''
        = Panic
   \<and> Verify_with (\<lambda>x y. Done 1) checksum_mac demo_rigid ''01HF7YAT3V0000000000000000-AAAAAAAAZMMQB-a-b''
        = Done (\<lparr>Valid = True, ULID = ''01HF7YAT3V0000000000000000'', Metadata = ''a-b''\<rparr>, None)
   \<and> Verify checksum_mac demo_rigid ''01HF7YAT3V0000000000000000-AAAAAAAAZMMQB-a-b''
        = Done (zeroVerifyResult, Some ErrIntegrityFailure)"
proof -
  have sp: "Split ''01HF7YAT3V0000000000000000-AAAAAAAAZM-a-b'' CHR ''-''
      = ''01HF7YAT3V0000000000000000'' # ''AAAAAAAAZM'' # [''a'', ''b'']"
    by simp
  have sp': "Split ''01HF7YAT3V0000000000000000-AAAAAAAAZMMQB-a-b'' CHR ''-''
      = ''01HF7YAT3V0000000000000000'' # ''AAAAAAAAZMMQB'' # [''a'', ''b'']"
    by simp
  have pa: "ulid_Parse ''01HF7YAT3V0000000000000000''
        = Inr [1, 139, 207, 229, 104, 123, 0, 0, 0, 0, 0, 0, 0, 0, 0, 0]"
    using ulid_Parse_String_16 [of "[1, 139, 207, 229, 104, 123, 0, 0, 0, 0, 0, 0, 0, 0, 0, 0]"]
    by (simp add: demo_ulid_String)
  have sg: "generateSignature checksum_mac demo_rigid ''01HF7YAT3V0000000000000000''
              (if [''a'', ''b''] = [] then [] else Join [''a'', ''b''] ''-'') = Done ''AAAAAAAAZMMQA''"
    using demo_signature_meta by simp
  from Verify_length_mismatch [OF sp pa sg] Verify_length_mismatch [OF sp' pa sg]
    sp pa demo_signature_meta
  show ?thesis by simp
qed

section \<open>Malformed input\<close>

text \<open>C4 as the code has it: \<open>Verify\<close> fails with \<open>ErrInvalidFormat\<close> on every input
  without a hyphen, and on no other input; so \<open>Verify("")\<close> and \<open>Verify("nohyphenshere")\<close>
  fail with \<open>ErrInvalidFormat\<close>, while \<open>"no-hyphens-here"\<close> contains hyphens, splits into
  three segments and fails with \<open>ErrInvalidULID\<close> because its first segment \<open>"no"\<close> is
  not a ULID; \<open>Verify("not-a-ulid-SIGNATURE")\<close> fails with \<open>ErrInvalidULID\<close>.  In each
  case the result is the zero value.\<close>

theorem Verify_malformed_inputs:
  "(CHR ''-'' \<notin> set s \<longrightarrow> Verify H r s = Done (zeroVerifyResult, Some ErrInvalidFormat))
   \<and> (CHR ''-'' \<in> set s \<longrightarrow> Verify H r s \<noteq> Done (res, Some ErrInvalidFormat))
   \<and> Verify H r [] = Done (zeroVerifyResult, Some ErrInvalidFormat)
   \<and> Verify H r ''nohyphenshere'' = Done (zeroVerifyResult, Some ErrInvalidFormat)
   \<and> Split ''no-hyphens-here'' CHR ''-'' = [''no'', ''hyphens'', ''here'']
   \<and> Verify H r ''no-hyphens-here'' = Done (zeroVerifyResult, Some ErrInvalidULID)
   \<and> Verify H r ''not-a-ulid-SIGNATURE'' = Done (zeroVerifyResult, Some ErrInvalidULID)"
proof -
  have none: "Verify H r t = Done (zeroVerifyResult, Some ErrInvalidFormat)"
    if "CHR ''-'' \<notin> set t" for t
  proof -
    from that have "length (Split t CHR ''-'') < 2"
      by (simp add: length_Split_less_2)
    then show ?thesis by (simp add: Verify_def Verify_with_def)
  qed
  have some: "Verify H r s \<noteq> Done (res, Some ErrInvalidFormat)" if "CHR ''-'' \<in> set s"
  proof -
    from that have "\<not> length (Split s CHR ''-'') < 2"
      by (simp add: length_Split_less_2)
    then show ?thesis
      by (auto simp: Verify_def Verify_with_def Let_def split: sum.splits outcome.splits)
  qed
  from none some show ?thesis
    by (simp add: eval_Verify)
qed

theorem Verify_malformed_inputs_witness:
  "CHR ''-'' \<notin> set ''01ARZ3NDEKTSV4RRFFQ69G5FAV''
   \<and> Verify checksum_mac demo_rigid ''01ARZ3NDEKTSV4RRFFQ69G5FAV''
        = Done (zeroVerifyResult, Some ErrInvalidFormat)
   \<and> CHR ''-'' \<in> set ''no-hyphens-here''
   \<and> Verify checksum_mac demo_rigid ''no-hyphens-here''
        \<noteq> Done (zeroVerifyResult, Some ErrInvalidFormat)"
proof -
  have a: "CHR ''-'' \<notin> set ''01ARZ3NDEKTSV4RRFFQ69G5FAV''" by simp
  have b: "CHR ''-'' \<in> set ''no-hyphens-here''" by simp
  from Verify_malformed_inputs [of "''01ARZ3NDEKTSV4RRFFQ69G5FAV''" checksum_mac demo_rigid]
    Verify_malformed_inputs [of "''no-hyphens-here''" checksum_mac demo_rigid zeroVerifyResult]
    a b
  show ?thesis by blast
qed

text \<open>C4 as stated fails: on the demonstration instance \<open>Verify("no-hyphens-here")\<close>
  does not end in \<open>ErrInvalidFormat\<close>.\<close>

theorem Verify_no_hyphens_here_counterexample:
  "Verify checksum_mac demo_rigid ''no-hyphens-here''
     = Done (zeroVerifyResult, Some ErrInvalidULID)
   \<and> Verify checksum_mac demo_rigid ''no-hyphens-here''
     \<noteq> Done (zeroVerifyResult, Some ErrInvalidFormat)"
  by (simp add: eval_Verify)

section \<open>Construction\<close>

text \<open>C5: construction fails exactly when the key is empty or a supplied signature length
  lies outside 4..32, and the error is then one of the two configuration errors; lengths
  3 and 33 are refused, 4 and 32 accepted, and without a length argument every non-empty
  key gives an instance of signature length 8.\<close>

theorem NewRigid_fails_iff:
  "(isl (NewRigid key sigLens ent) =
      (key = [] \<or> (case sigLens of [] \<Rightarrow> False | n # _ \<Rightarrow> n < 4 \<or> 32 < n)))
   \<and> (isl (NewRigid key sigLens ent) =
      (NewRigid key sigLens ent \<in> {Inl ErrEmptySecretKey, Inl ErrInvalidSigLength}))
   \<and> NewRigid (k # ks) [3] ent = Inl ErrInvalidSigLength
   \<and> NewRigid (k # ks) [33] ent = Inl ErrInvalidSigLength
   \<and> NewRigid (k # ks) [4] ent = Inr \<lparr>secretKey = k # ks, signatureLength = 4, entropy = ent\<rparr>
   \<and> NewRigid (k # ks) [32] ent = Inr \<lparr>secretKey = k # ks, signatureLength = 32, entropy = ent\<rparr>
   \<and> NewRigid (k # ks) [] ent = Inr \<lparr>secretKey = k # ks, signatureLength = 8, entropy = ent\<rparr>"
  by (auto simp: NewRigid_def DefaultSignatureLength_def MinSignatureLength_def
      MaxSignatureLength_def split: list.splits)

section \<open>Empty and absent metadata\<close>

text \<open>C6: \<open>Generate("")\<close> and \<open>Generate()\<close> are the same computation, with the same
  result and the same instance afterwards; signing with empty metadata feeds HMAC the id
  text alone; and an identifier generated without metadata has two segments and verifies
  with empty \<open>Metadata\<close>.\<close>

theorem Generate_empty_metadata:
  "Generate H r now [[]] = Generate H r now []
   \<and> generateSignature H r id_text [] =
       (if signatureLength r < 0 \<or> 32 < signatureLength r then Panic
        else Done (ToUpper (EncodeToString (take (nat (signatureLength r))
               (word_bytes 32 (H (secretKey r) (bytes_of id_text)))))))
   \<and> (\<forall>s. fst (Generate H r now []) = Done (Inr s) \<longrightarrow>
          length (Split s CHR ''-'') = 2
        \<and> Verify H (snd (Generate H r now [])) s
            = Done (\<lparr>Valid = True, ULID = take 26 s, Metadata = []\<rparr>, None)
        \<and> Verify H (snd (Generate H r now [[]])) s
            = Done (\<lparr>Valid = True, ULID = take 26 s, Metadata = []\<rparr>, None))"
proof (intro conjI allI impI)
  show eq: "Generate H r now [[]] = Generate H r now []"
    by (simp add: Generate_def split: prod.splits sum.splits)
  show "generateSignature H r id_text [] =
       (if signatureLength r < 0 \<or> 32 < signatureLength r then Panic
        else Done (ToUpper (EncodeToString (take (nat (signatureLength r))
               (word_bytes 32 (H (secretKey r) (bytes_of id_text)))))))"
    by (simp add: generateSignature_unfold bytes_of_def)
  fix s
  assume "fst (Generate H r now []) = Done (Inr s)"
  then obtain u sg where u: "fst (ulid_New (ulid_Timestamp now) (entropy r)) = Inr u"
    and sg: "generateSignature H r (ulid_String u) [] = Done sg"
    and s: "s = ulid_String u @ CHR ''-'' # sg"
    by (rule Generate_Inr) simp
  have len: "length u = 16" using ulid_New_Inr [OF u] by simp
  show "length (Split s CHR ''-'') = 2"
    using Split_identifier [of "ulid_String u" sg "[]"]
      hyphen_notin_ulid_String [of u] generateSignature_plain [OF sg]
    by (simp add: s)
  show v: "Verify H (snd (Generate H r now [])) s
            = Done (\<lparr>Valid = True, ULID = take 26 s, Metadata = []\<rparr>, None)"
    using Verify_identifier [OF len sg] by (simp add: snd_Generate s length_ulid_String)
  show "Verify H (snd (Generate H r now [[]])) s
            = Done (\<lparr>Valid = True, ULID = take 26 s, Metadata = []\<rparr>, None)"
    using v by (simp only: eq)
qed

theorem Generate_empty_metadata_witness:
  "fst (Generate checksum_mac demo_rigid demo_now [])
      = Done (Inr ''01HF7YAT3V0000000000000000-AAAAAAAAVYEQA'')
   \<and> fst (Generate checksum_mac demo_rigid demo_now [[]])
      = Done (Inr ''01HF7YAT3V0000000000000000-AAAAAAAAVYEQA'')
   \<and> Verify checksum_mac (snd (Generate checksum_mac demo_rigid demo_now []))
        ''01HF7YAT3V0000000000000000-AAAAAAAAVYEQA''
      = Done (\<lparr>Valid = True, ULID = ''01HF7YAT3V0000000000000000'', Metadata = []\<rparr>, None)"
proof -
  note inst = Generate_empty_metadata [of checksum_mac demo_rigid demo_now]
  from inst have "Generate checksum_mac demo_rigid demo_now [[]]
      = Generate checksum_mac demo_rigid demo_now []" by blast
  moreover from inst demo_Generate_plain
  have "Verify checksum_mac (snd (Generate checksum_mac demo_rigid demo_now []))
        ''01HF7YAT3V0000000000000000-AAAAAAAAVYEQA''
      = Done (\<lparr>Valid = True, ULID = take 26 ''01HF7YAT3V0000000000000000-AAAAAAAAVYEQA'',
            Metadata = []\<rparr>, None)" by blast
  ultimately show ?thesis using demo_Generate_plain by simp
qed

section \<open>Extraction\<close>

text \<open>C7: for an identifier \<open>s\<close> returned by \<open>Generate\<close> at the instant \<open>now\<close>, the
  16-byte value \<open>u\<close> that \<open>ulid.New\<close> produced in that call has the first segment of
  \<open>s\<close> as its 26-character text, \<open>ExtractULID\<close> returns exactly \<open>u\<close>, the timestamp
  embedded in \<open>u\<close> is the millisecond count of \<open>now\<close>, and \<open>ExtractTimestamp\<close> returns
  the time of that millisecond count, which for an instant of the Unix era is \<open>now\<close> cut
  to whole milliseconds.\<close>

theorem Extract_Generate:
  assumes "fst (Generate H r now metadata) = Done (Inr s)"
  shows "\<exists>u. fst (ulid_New (ulid_Timestamp now) (entropy r)) = Inr u
           \<and> length u = 16
           \<and> length (ulid_String u) = 26
           \<and> ulid_String u = Split s CHR ''-'' ! 0
           \<and> ExtractULID r' s = Inr u
           \<and> ULID_Time u = ulid_Timestamp now
           \<and> ExtractTimestamp r' s = Inr (ulid_Time (ulid_Timestamp now))
           \<and> (0 \<le> Unix now \<and> Unix now < 2 ^ 50
                \<and> 0 \<le> Nanosecond now \<and> Nanosecond now < 1000000000 \<longrightarrow>
              ExtractTimestamp r' s
                = Inr \<lparr>Unix = Unix now, Nanosecond = Nanosecond now div 1000000 * 1000000\<rparr>)"
proof -
  let ?m = "if metadata = [] then [] else hd metadata"
  from assms obtain u sg where u: "fst (ulid_New (ulid_Timestamp now) (entropy r)) = Inr u"
    and sg: "generateSignature H r (ulid_String u) ?m = Done sg"
    and s: "s = ulid_String u @ CHR ''-'' # sg @ (if ?m = [] then [] else CHR ''-'' # ?m)"
    by (rule Generate_Inr)
  have len: "length u = 16" and tm: "ULID_Time u = ulid_Timestamp now"
    using ulid_New_Inr [OF u] by simp_all
  have parts: "Split s CHR ''-'' = (if ?m = [] then [ulid_String u, sg]
                 else ulid_String u # sg # Split ?m CHR ''-'')"
    unfolding s
    using hyphen_notin_ulid_String generateSignature_plain [OF sg] by (rule Split_identifier)
  have p0: "Split s CHR ''-'' ! 0 = ulid_String u" and two: "\<not> length (Split s CHR ''-'') < 2"
    by (simp_all add: parts)
  have ex: "ExtractULID r' s = Inr u"
    by (simp add: ExtractULID_def Let_def two p0 ulid_Parse_String_16 [OF len])
  have et: "ExtractTimestamp r' s = Inr (ulid_Time (ulid_Timestamp now))"
    by (simp add: ExtractTimestamp_def ex tm)
  have "ExtractTimestamp r' s
          = Inr \<lparr>Unix = Unix now, Nanosecond = Nanosecond now div 1000000 * 1000000\<rparr>"
    if "0 \<le> Unix now \<and> Unix now < 2 ^ 50 \<and> 0 \<le> Nanosecond now \<and> Nanosecond now < 1000000000"
    using that by (simp only: et ulid_Time_Timestamp)
  with u len p0 ex tm et show ?thesis
    by (auto simp: length_ulid_String)
qed

theorem Extract_Generate_witness:
  "fst (Generate checksum_mac demo_rigid demo_now [''a-b''])
      = Done (Inr ''01HF7YAT3V0000000000000000-AAAAAAAAZMMQA-a-b'')
   \<and> 0 \<le> Unix demo_now \<and> Unix demo_now < 2 ^ 50
   \<and> 0 \<le> Nanosecond demo_now \<and> Nanosecond demo_now < 1000000000
   \<and> fst (ulid_New (ulid_Timestamp demo_now) (entropy demo_rigid))
      = Inr [1, 139, 207, 229, 104, 123, 0, 0, 0, 0, 0, 0, 0, 0, 0, 0]
   \<and> ExtractULID demo_rigid ''01HF7YAT3V0000000000000000-AAAAAAAAZMMQA-a-b''
      = Inr [1, 139, 207, 229, 104, 123, 0, 0, 0, 0, 0, 0, 0, 0, 0, 0]
   \<and> ExtractTimestamp demo_rigid ''01HF7YAT3V0000000000000000-AAAAAAAAZMMQA-a-b''
      = Inr \<lparr>Unix = 1700000000, Nanosecond = 123000000\<rparr>"
proof -
  have era: "0 \<le> Unix demo_now \<and> Unix demo_now < 2 ^ 50
      \<and> 0 \<le> Nanosecond demo_now \<and> Nanosecond demo_now < 1000000000"
    by (simp add: demo_now_def)
  from Extract_Generate [OF demo_Generate_meta, of demo_rigid] demo_ulid era
  have "ExtractULID demo_rigid ''01HF7YAT3V0000000000000000-AAAAAAAAZMMQA-a-b''
      = Inr [1, 139, 207, 229, 104, 123, 0, 0, 0, 0, 0, 0, 0, 0, 0, 0]
    \<and> ExtractTimestamp demo_rigid ''01HF7YAT3V0000000000000000-AAAAAAAAZMMQA-a-b''
      = Inr \<lparr>Unix = Unix demo_now, Nanosecond = Nanosecond demo_now div 1000000 * 1000000\<rparr>"
    by auto
  with demo_Generate_meta demo_ulid era show ?thesis
    by (simp add: demo_now_def)
qed

section \<open>Shape of Verify's results\<close>

text \<open>C8: on an instance whose signature length lies in 0..32, as every constructed
  instance's does, \<open>Verify\<close> always returns; and whenever it returns, its error is nil
  exactly when the result has \<open>Valid = true\<close>, the error is nil or one of
  \<open>ErrInvalidFormat\<close>, \<open>ErrInvalidULID\<close>, \<open>ErrIntegrityFailure\<close>, and with an error the
  result is the zero value.\<close>

theorem Verify_error_iff_not_Valid:
  "(0 \<le> signatureLength r \<and> signatureLength r \<le> 32 \<longrightarrow> Verify H r s \<noteq> Panic)
   \<and> (Verify H r s = Done (res, err) \<longrightarrow>
        (err = None) = Valid res
      \<and> (err \<noteq> None \<longrightarrow> res = zeroVerifyResult)
      \<and> err \<in> {None, Some ErrInvalidFormat, Some ErrInvalidULID, Some ErrIntegrityFailure})"
proof (intro conjI impI)
  assume "0 \<le> signatureLength r \<and> signatureLength r \<le> 32"
  then show "Verify H r s \<noteq> Panic"
    by (auto simp: Verify_def Verify_with_def Let_def generateSignature_unfold
        split: sum.splits)
next
  assume "Verify H r s = Done (res, err)"
  then show "(err = None) = Valid res"
    by (auto simp: Verify_def Verify_with_def Let_def zeroVerifyResult_def
        split: if_splits sum.splits outcome.splits)
next
  assume "Verify H r s = Done (res, err)" and "err \<noteq> None"
  then show "res = zeroVerifyResult"
    by (auto simp: Verify_def Verify_with_def Let_def
        split: if_splits sum.splits outcome.splits)
next
  assume "Verify H r s = Done (res, err)"
  then show "err \<in> {None, Some ErrInvalidFormat, Some ErrInvalidULID, Some ErrIntegrityFailure}"
    by (auto simp: Verify_def Verify_with_def Let_def
        split: if_splits sum.splits outcome.splits)
qed

theorem Verify_error_iff_not_Valid_witness:
  "0 \<le> signatureLength demo_rigid \<and> signatureLength demo_rigid \<le> 32
   \<and> Verify checksum_mac demo_rigid ''not-a-ulid-SIGNATURE''
      = Done (zeroVerifyResult, Some ErrInvalidULID)
   \<and> (Some ErrInvalidULID = None) = Valid zeroVerifyResult
   \<and> Verify checksum_mac demo_rigid ''01HF7YAT3V0000000000000000-AAAAAAAAZMMQA-a-b''
      = Done (\<lparr>Valid = True, ULID = ''01HF7YAT3V0000000000000000'', Metadata = ''a-b''\<rparr>, None)
   \<and> (None = (None :: error option))
      = Valid \<lparr>Valid = True, ULID = ''01HF7YAT3V0000000000000000'', Metadata = ''a-b''\<rparr>"
proof -
  have len: "0 \<le> signatureLength demo_rigid \<and> signatureLength demo_rigid \<le> 32"
    by (simp add: demo_rigid_def)
  have bad: "Verify checksum_mac demo_rigid ''not-a-ulid-SIGNATURE''
      = Done (zeroVerifyResult, Some ErrInvalidULID)"
    by (simp add: eval_Verify)
  from Verify_error_iff_not_Valid [of demo_rigid checksum_mac "''not-a-ulid-SIGNATURE''"
      zeroVerifyResult "Some ErrInvalidULID"]
    Verify_error_iff_not_Valid [of demo_rigid checksum_mac
      "''01HF7YAT3V0000000000000000-AAAAAAAAZMMQA-a-b''"
      "\<lparr>Valid = True, ULID = ''01HF7YAT3V0000000000000000'', Metadata = ''a-b''\<rparr>" None]
    len bad demo_Verify
  show ?thesis by blast
qed

text \<open>C9: an input with fewer than two hyphen-separated segments makes \<open>ExtractULID\<close> and
  \<open>ExtractTimestamp\<close> fail with \<open>ErrInvalidFormat\<close>; in particular the bare 26-character
  text of any ULID, which \<open>ulid.Parse\<close> itself accepts, is refused by both.\<close>

theorem Extract_single_segment:
  "(length (Split s CHR ''-'') < 2 \<longrightarrow>
      ExtractULID r s = Inl ErrInvalidFormat \<and> ExtractTimestamp r s = Inl ErrInvalidFormat)
   \<and> (length u = 16 \<longrightarrow>
      ulid_Parse (ulid_String u) = Inr u
      \<and> ExtractULID r (ulid_String u) = Inl ErrInvalidFormat
      \<and> ExtractTimestamp r (ulid_String u) = Inl ErrInvalidFormat)"
proof -
  have one: "ExtractULID r t = Inl ErrInvalidFormat \<and> ExtractTimestamp r t = Inl ErrInvalidFormat"
    if "length (Split t CHR ''-'') < 2" for t
    using that by (simp add: ExtractTimestamp_def ExtractULID_def)
  have "length (Split (ulid_String u) CHR ''-'') < 2"
    by (simp add: length_Split_less_2 hyphen_notin_ulid_String)
  with one show ?thesis by (simp add: ulid_Parse_String_16)
qed

theorem Extract_single_segment_witness:
  "length (Split ''01ARZ3NDEKTSV4RRFFQ69G5FAV'' CHR ''-'') < 2
   \<and> ExtractULID demo_rigid ''01ARZ3NDEKTSV4RRFFQ69G5FAV'' = Inl ErrInvalidFormat
   \<and> ExtractTimestamp demo_rigid ''01ARZ3NDEKTSV4RRFFQ69G5FAV'' = Inl ErrInvalidFormat
   \<and> length [1, 139, 207, 229, 104, 123, 0, 0, 0, 0, 0, 0, 0, 0, 0, 0 :: byte] = 16
   \<and> ulid_Parse ''01HF7YAT3V0000000000000000''
       = Inr [1, 139, 207, 229, 104, 123, 0, 0, 0, 0, 0, 0, 0, 0, 0, 0]
   \<and> ExtractULID demo_rigid ''01HF7YAT3V0000000000000000'' = Inl ErrInvalidFormat
   \<and> ExtractTimestamp demo_rigid ''01HF7YAT3V0000000000000000'' = Inl ErrInvalidFormat"
proof -
  have a: "length (Split ''01ARZ3NDEKTSV4RRFFQ69G5FAV'' CHR ''-'') < 2" by simp
  have b: "length [1, 139, 207, 229, 104, 123, 0, 0, 0, 0, 0, 0, 0, 0, 0, 0 :: byte] = 16" by simp
  from Extract_single_segment [of "''01ARZ3NDEKTSV4RRFFQ69G5FAV''" demo_rigid
      "[1, 139, 207, 229, 104, 123, 0, 0, 0, 0, 0, 0, 0, 0, 0, 0]"] a b
  show ?thesis by (simp add: demo_ulid_String)
qed

end
